theory Spec2Isabelle
  imports Complex_Main "HOL-Library.AList" "HOL-Library.Option_ord"
begin

section \<open>The host: clock, timers, promises\<close>

text \<open>
  The detector of \<^verbatim>\<open>firstConsistentlyInteractiveDetector.js\<close> runs on a single-threaded
  JavaScript host.  Timestamps are JavaScript numbers; they are modelled as reals
  (\<^verbatim>\<open>NaN\<close> and rounding are outside the model).  The one infinite value the code uses,
  the initial \<^verbatim>\<open>_timerActivationTime = -Infinity\<close>, is \<open>None\<close> of \<open>real option\<close>, which
  the order of \<^theory_text>\<open>Option_ord\<close> puts below every \<open>Some t\<close>.  Calls to \<^verbatim>\<open>log\<close> only
  write diagnostics and are left out.
\<close>

datatype error = TypeError

datatype completion = Normal | Throw error

datatype promise = Pending | Fulfilled real

record detector =
  useMutationObserver :: bool
  minValue :: "real option"
  networkRequests :: "(real \<times> real) list"
  incompleteJSInitiatedRequestStartTimes :: "(string \<times> real) list"
  timerId :: "nat option"
  timerActivationTime :: "real option"
  scheduleTimerTasks :: bool
  firstConsistentlyInteractiveResolver :: "nat option"

text \<open>
  The world is the detector instance together with the parts of the host it acts on:
  the armed timeouts (identifier and requested delay), the promises handed out (the
  resolver stored in the detector is the index of its promise), the number of
  \<^verbatim>\<open>load\<close> listeners the detector has registered, the stream of values that successive
  calls of \<^verbatim>\<open>performance.now()\<close> return, and a record of the argument tuples with which
  \<^verbatim>\<open>computeFirstConsistentlyInteractive\<close> has been called.
\<close>

record world =
  det :: detector
  timers :: "(nat \<times> real) list"
  nextTimer :: nat
  promises :: "promise list"
  loadListeners :: nat
  clock :: "nat \<Rightarrow> real"
  reads :: nat
  computeCalls :: "(real \<times> real option \<times> real \<times> real) list"

text \<open>
  What a detection attempt reads from its environment: \<^verbatim>\<open>performance.timing\<close>,
  \<^verbatim>\<open>window.chrome.loadTimes().firstPaintTime\<close> when that exists, and the two functions of
  \<^verbatim>\<open>firstConsistentlyInteractiveCore.js\<close>.  That module is not part of the sources at
  hand, so its functions are parameters.
\<close>

record env =
  navigationStart :: real
  domContentLoadedEventEnd :: real
  chromeFirstPaintTime :: "real option"
  computeLastKnownNetwork2Busy :: "real list \<Rightarrow> (real \<times> real) list \<Rightarrow> real"
  computeFirstConsistentlyInteractive ::
    "real \<Rightarrow> real option \<Rightarrow> real \<Rightarrow> real \<Rightarrow> (real \<times> real) list \<Rightarrow> real option"

record config =
  cfg_useMutationObserver :: bool
  cfg_minValue :: "real option"

text \<open>JavaScript truthiness of a value that is a number or \<^verbatim>\<open>null\<close>.\<close>

fun truthy :: "real option \<Rightarrow> bool" where
  "truthy None = False"
| "truthy (Some v) = (v \<noteq> 0)"

definition performance_now :: "world \<Rightarrow> real \<times> world" where
  "performance_now w = (clock w (reads w), w\<lparr>reads := Suc (reads w)\<rparr>)"

text \<open>\<^verbatim>\<open>clearTimeout\<close> of \<^verbatim>\<open>null\<close> or of a timer that is no longer armed does nothing.\<close>

definition clearTimeout :: "nat option \<Rightarrow> world \<Rightarrow> world" where
  "clearTimeout t w =
     (case t of
        None \<Rightarrow> w
      | Some i \<Rightarrow> w\<lparr>timers := filter (\<lambda>p. fst p \<noteq> i) (timers w)\<rparr>)"

definition setTimeout :: "real \<Rightarrow> world \<Rightarrow> nat \<times> world" where
  "setTimeout delay w =
     (nextTimer w,
      w\<lparr>timers := timers w @ [(nextTimer w, delay)], nextTimer := Suc (nextTimer w)\<rparr>)"

text \<open>Calling the \<^verbatim>\<open>resolve\<close> function of a promise settles it only while it is pending.\<close>

definition resolvePromise :: "nat \<Rightarrow> real \<Rightarrow> world \<Rightarrow> world" where
  "resolvePromise p v w =
     (if p < length (promises w) \<and> promises w ! p = Pending
      then w\<lparr>promises := (promises w)[p := Fulfilled v]\<rparr>
      else w)"

section \<open>The detector\<close>

definition constructor :: "config \<Rightarrow> detector" where
  "constructor c =
     \<lparr>useMutationObserver = cfg_useMutationObserver c,
      minValue = (if truthy (cfg_minValue c) then cfg_minValue c else None),
      networkRequests = [],
      incompleteJSInitiatedRequestStartTimes = [],
      timerId = None,
      timerActivationTime = None,
      scheduleTimerTasks = False,
      firstConsistentlyInteractiveResolver = None\<rparr>"

definition new_world :: "config \<Rightarrow> (nat \<Rightarrow> real) \<Rightarrow> world" where
  "new_world c clk =
     \<lparr>det = constructor c, timers = [], nextTimer = 1, promises = [],
      loadListeners = 0, clock = clk, reads = 0, computeCalls = []\<rparr>"

definition rescheduleTimer :: "real \<Rightarrow> world \<Rightarrow> world" where
  "rescheduleTimer earliestTime w =
     (if \<not> scheduleTimerTasks (det w) then w
      else if timerActivationTime (det w) > Some earliestTime then w
      else
        let w1 = clearTimeout (timerId (det w)) w;
            (now, w2) = performance_now w1;
            (tid, w3) = setTimeout (earliestTime - now) w2
        in w3\<lparr>det := (det w3)\<lparr>timerId := Some tid,
                                timerActivationTime := Some earliestTime\<rparr>\<rparr>)"

definition startSchedulingTimerTasks :: "world \<Rightarrow> world" where
  "startSchedulingTimerTasks w =
     rescheduleTimer 0 (w\<lparr>det := (det w)\<lparr>scheduleTimerTasks := True\<rparr>\<rparr>)"

definition setMinValue :: "real \<Rightarrow> world \<Rightarrow> world" where
  "setMinValue v w = w\<lparr>det := (det w)\<lparr>minValue := Some v\<rparr>\<rparr>"

text \<open>\<^verbatim>\<open>_unregisterListeners\<close> has an empty body.\<close>

definition disable :: "world \<Rightarrow> world" where
  "disable w =
     (let w1 = clearTimeout (timerId (det w)) w
      in w1\<lparr>det := (det w1)\<lparr>scheduleTimerTasks := False\<rparr>\<rparr>)"

text \<open>
  The request map is a JavaScript \<^verbatim>\<open>Map\<close>: \<^verbatim>\<open>set\<close> on a key already present keeps its
  position and replaces the value, on a new key appends; \<^verbatim>\<open>delete\<close> removes the key
  if it is there and never fails; \<^verbatim>\<open>values()\<close> follows insertion order.
\<close>

definition beforeJSInitiatedRequestCallback :: "string \<Rightarrow> world \<Rightarrow> world" where
  "beforeJSInitiatedRequestCallback requestId w =
     (let (now, w1) = performance_now w
      in w1\<lparr>det := (det w1)\<lparr>incompleteJSInitiatedRequestStartTimes :=
            AList.update requestId now (incompleteJSInitiatedRequestStartTimes (det w1))\<rparr>\<rparr>)"

definition afterJSInitiatedRequestCallback :: "string \<Rightarrow> world \<Rightarrow> completion \<times> world" where
  "afterJSInitiatedRequestCallback requestId w =
     (Normal,
      w\<lparr>det := (det w)\<lparr>incompleteJSInitiatedRequestStartTimes :=
            AList.delete requestId (incompleteJSInitiatedRequestStartTimes (det w))\<rparr>\<rparr>)"

definition getMinValue :: "env \<Rightarrow> detector \<Rightarrow> real option" where
  "getMinValue e d =
     (if truthy (minValue d) then minValue d
      else if domContentLoadedEventEnd e \<noteq> 0
      then Some (domContentLoadedEventEnd e - navigationStart e)
      else None)"

definition incompleteRequestStarts :: "detector \<Rightarrow> real list" where
  "incompleteRequestStarts d = map snd (incompleteJSInitiatedRequestStartTimes d)"

text \<open>The values \<^verbatim>\<open>_checkTTI\<close> computes before it first touches the timer.\<close>

definition lastBusy :: "env \<Rightarrow> world \<Rightarrow> real" where
  "lastBusy e w =
     computeLastKnownNetwork2Busy e (incompleteRequestStarts (det w)) (networkRequests (det w))"

definition firstPaint :: "env \<Rightarrow> real" where
  "firstPaint e =
     (case chromeFirstPaintTime e of
        Some t \<Rightarrow> t * 1000 - navigationStart e
      | None \<Rightarrow> 0)"

definition searchStart :: "env \<Rightarrow> real" where
  "searchStart e =
     (if firstPaint e \<noteq> 0 then firstPaint e
      else domContentLoadedEventEnd e - navigationStart e)"

text \<open>The last statement of \<^verbatim>\<open>_checkTTI\<close>: \<^verbatim>\<open>rescheduleTimer(performance.now() + 1000)\<close>.\<close>

definition retryInOneSecond :: "world \<Rightarrow> world" where
  "retryInOneSecond w =
     (let (now, w1) = performance_now w in rescheduleTimer (now + 1000) w1)"

text \<open>
  \<^verbatim>\<open>_checkTTI\<close>.  The branch for a \<^verbatim>\<open>null\<close> minimum value has no \<^verbatim>\<open>return\<close>, so the
  engine is called on every path.  Calling the resolver while it is still \<^verbatim>\<open>null\<close>
  throws, and the statements after it do not run.
\<close>

definition checkTTI :: "env \<Rightarrow> world \<Rightarrow> completion \<times> world" where
  "checkTTI e w =
     (let busy = lastBusy e w;
          start = searchStart e;
          minV = getMinValue e (det w);
          (currentTime, w1) = performance_now w;
          w2 = (if minV = None
                then rescheduleTimer (max (busy + 5000) (currentTime + 1000)) w1
                else w1);
          maybeFCI = computeFirstConsistentlyInteractive e start minV busy currentTime [];
          w3 = w2\<lparr>computeCalls := computeCalls w2 @ [(start, minV, busy, currentTime)]\<rparr>
      in case maybeFCI of
           None \<Rightarrow> (Normal, retryInOneSecond w3)
         | Some fci \<Rightarrow>
             if fci \<noteq> 0
             then (case firstConsistentlyInteractiveResolver (det w3) of
                     None \<Rightarrow> (Throw TypeError, w3)
                   | Some p \<Rightarrow>
                       (Normal, retryInOneSecond (disable (resolvePromise p fci w3))))
             else (Normal, retryInOneSecond w3))"

text \<open>
  \<^verbatim>\<open>getFirstConsistentlyInteractive\<close>; the argument says whether
  \<^verbatim>\<open>document.readyState\<close> is \<^verbatim>\<open>'complete'\<close>.  The result is the new promise.
\<close>

definition getFirstConsistentlyInteractive :: "bool \<Rightarrow> world \<Rightarrow> nat \<times> world" where
  "getFirstConsistentlyInteractive loaded w =
     (let p = length (promises w);
          w1 = w\<lparr>promises := promises w @ [Pending]\<rparr>;
          w2 = w1\<lparr>det := (det w1)\<lparr>firstConsistentlyInteractiveResolver := Some p\<rparr>\<rparr>
      in (p, if loaded then startSchedulingTimerTasks w2
             else w2\<lparr>loadListeners := Suc (loadListeners w2)\<rparr>))"

section \<open>Runs of the event loop\<close>

text \<open>
  One event is one task of the host's queue, run to completion: a call of the public
  interface, a request notification from the patched \<^verbatim>\<open>fetch\<close>, the \<^verbatim>\<open>load\<close> event
  (which runs every listener registered so far), an armed timeout firing (it is then
  no longer armed and its callback \<^verbatim>\<open>_checkTTI\<close> runs), or a direct call of
  \<^verbatim>\<open>_checkTTI\<close>.  An exception thrown by a task ends that task; the state it had
  reached stays.
\<close>

datatype event =
    GetFCI bool
  | WindowLoad
  | StartScheduling
  | SetMinValue real
  | Reschedule real
  | Disable
  | BeforeRequest string
  | AfterRequest string
  | TimerFire nat env
  | ForcedCheck env

fun step :: "event \<Rightarrow> world \<Rightarrow> world" where
  "step (GetFCI loaded) w = snd (getFirstConsistentlyInteractive loaded w)"
| "step WindowLoad w = (startSchedulingTimerTasks ^^ loadListeners w) w"
| "step StartScheduling w = startSchedulingTimerTasks w"
| "step (SetMinValue v) w = setMinValue v w"
| "step (Reschedule t) w = rescheduleTimer t w"
| "step Disable w = disable w"
| "step (BeforeRequest i) w = beforeJSInitiatedRequestCallback i w"
| "step (AfterRequest i) w = snd (afterJSInitiatedRequestCallback i w)"
| "step (TimerFire i e) w =
     (if i \<in> fst ` set (timers w)
      then snd (checkTTI e (w\<lparr>timers := filter (\<lambda>p. fst p \<noteq> i) (timers w)\<rparr>))
      else w)"
| "step (ForcedCheck e) w = snd (checkTTI e w)"

definition run :: "event list \<Rightarrow> world \<Rightarrow> world" where
  "run es w = fold step es w"

section \<open>Notions used by the properties\<close>

text \<open>
  A world is well formed when the only timeout that can be armed is the one the detector
  remembers in \<^verbatim>\<open>_timerId\<close>, no timeout is armed while the detector is not scheduling,
  the stored resolver belongs to a promise that exists, and the request map has one
  entry per key.  Every world that a run reaches from a new detector is well formed
  (\<open>wf_reachable\<close> below), and so is the world in which the callback of a timer
  that has just fired runs (\<open>wf_timer_fired\<close>).
\<close>

definition wf_world :: "world \<Rightarrow> bool" where
  "wf_world w \<longleftrightarrow>
     list_all (\<lambda>p. timerId (det w) = Some (fst p)) (timers w) \<and>
     (scheduleTimerTasks (det w) \<or> timers w = []) \<and>
     (case firstConsistentlyInteractiveResolver (det w) of
        None \<Rightarrow> True
      | Some p \<Rightarrow> p < length (promises w)) \<and>
     distinct (map fst (incompleteJSInitiatedRequestStartTimes (det w)))"

text \<open>
  The value the local variable \<^verbatim>\<open>maybeFCI\<close> of \<^verbatim>\<open>_checkTTI\<close> takes when the attempt
  starts in world \<open>w\<close>: the answer of the detection engine.
\<close>

definition engineAnswer :: "env \<Rightarrow> world \<Rightarrow> real option" where
  "engineAnswer e w =
     computeFirstConsistentlyInteractive e (searchStart e) (getMinValue e (det w))
       (lastBusy e w) (clock w (reads w)) []"

text \<open>The values of \<^verbatim>\<open>_timerActivationTime\<close> before, between and after the events of a run.\<close>

fun activationTimes :: "event list \<Rightarrow> world \<Rightarrow> real option list" where
  "activationTimes [] w = [timerActivationTime (det w)]"
| "activationTimes (ev # es) w = timerActivationTime (det w) # activationTimes es (step ev w)"

text \<open>
  Events that neither enable the detector nor call \<^verbatim>\<open>_checkTTI\<close> directly: what the
  host and the page can still do to a detector that is left alone.
\<close>

fun bystander :: "event \<Rightarrow> bool" where
  "bystander (GetFCI loaded) = False"
| "bystander WindowLoad = False"
| "bystander StartScheduling = False"
| "bystander (ForcedCheck e) = False"
| "bystander ev = True"

text \<open>
  The world \<^verbatim>\<open>_checkTTI\<close> has reached when the engine has answered: the clock has been
  read, the branch for a \<^verbatim>\<open>null\<close> minimum value has asked for its postponement, and
  the engine call is on record.
\<close>

definition afterEngineCall :: "env \<Rightarrow> world \<Rightarrow> world" where
  "afterEngineCall e w =
     (let w1 = w\<lparr>reads := Suc (reads w)\<rparr>;
          w2 = (if getMinValue e (det w) = None
                then rescheduleTimer (max (lastBusy e w + 5000) (clock w (reads w) + 1000)) w1
                else w1)
      in w2\<lparr>computeCalls := computeCalls w2 @
            [(searchStart e, getMinValue e (det w), lastBusy e w, clock w (reads w))]\<rparr>)"

text \<open>Concrete inputs for the examples: a configuration, and an environment whose engine
  reports no busy network and answers every call with the same value.\<close>

definition sampleConfig :: config where
  "sampleConfig = \<lparr>cfg_useMutationObserver = False, cfg_minValue = None\<rparr>"

definition sampleEnv :: "real \<Rightarrow> real option \<Rightarrow> env" where
  "sampleEnv dcl answer =
     \<lparr>navigationStart = 1000,
      domContentLoadedEventEnd = dcl,
      chromeFirstPaintTime = None,
      computeLastKnownNetwork2Busy = (\<lambda>starts requests. 0),
      computeFirstConsistentlyInteractive = (\<lambda>start minV busy now tasks. answer)\<rparr>"

text \<open>A detector that has just been enabled: its first timer is armed for time 0.\<close>

definition enabledWorld :: world where
  "enabledWorld = startSchedulingTimerTasks (new_world sampleConfig real)"

fun isSetMinValue :: "event \<Rightarrow> bool" where
  "isSetMinValue (SetMinValue v) = True"
| "isSetMinValue ev = False"

text \<open>
  A detector whose promise has been requested on a loaded page (promise 0 pending,
  timer 1 armed for time 0), and the same detector after \<^verbatim>\<open>disable()\<close>.
\<close>

definition waitingWorld :: world where
  "waitingWorld = snd (getFirstConsistentlyInteractive True (new_world sampleConfig real))"

definition disabledWorld :: world where
  "disabledWorld = disable waitingWorld"

text \<open>
  A page met ten seconds after navigation start whose \<open>domContentLoadedEventEnd\<close> is not
  yet available while Chrome reports a first paint at 1200 ms: the promise has been
  requested before the \<^verbatim>\<open>load\<close> event and \<^verbatim>\<open>startSchedulingTimerTasks\<close> has been called
  directly.  The engine of this example reports no busy network and answers with the
  later of search start and minimum value (a \<^verbatim>\<open>null\<close> minimum counting as 0, as
  \<^verbatim>\<open>Math.max\<close> would have it) once five seconds have passed since both the last
  busy moment and the search start.
\<close>

definition lateClock :: "nat \<Rightarrow> real" where
  "lateClock n = 10000 + 10 * real n"

definition earlyChromeEnv :: env where
  "earlyChromeEnv =
     \<lparr>navigationStart = 1000,
      domContentLoadedEventEnd = 0,
      chromeFirstPaintTime = Some 2.2,
      computeLastKnownNetwork2Busy = (\<lambda>starts requests. 0),
      computeFirstConsistentlyInteractive =
        (\<lambda>start minV busy now tasks.
           if now - busy < 5000 \<or> now - start < 5000 then None
           else Some (max start (case minV of None \<Rightarrow> 0 | Some m \<Rightarrow> m)))\<rparr>"

definition earlyWorld :: world where
  "earlyWorld = run [GetFCI False, StartScheduling] (new_world sampleConfig lateClock)"

section \<open>Auxiliary facts\<close>

subsection \<open>What each operation changes\<close>

lemmas host_defs = performance_now_def clearTimeout_def setTimeout_def

lemma rescheduleTimer_eq:
  "rescheduleTimer t w =
     (if scheduleTimerTasks (det w) \<and> \<not> Some t < timerActivationTime (det w)
      then w\<lparr>det := (det w)\<lparr>timerId := Some (nextTimer w), timerActivationTime := Some t\<rparr>,
             timers := filter (\<lambda>p. Some (fst p) \<noteq> timerId (det w)) (timers w)
                         @ [(nextTimer w, t - clock w (reads w))],
             nextTimer := Suc (nextTimer w),
             reads := Suc (reads w)\<rparr>
      else w)"
  by (cases "timerId (det w)") (simp_all add: rescheduleTimer_def host_defs Let_def)

lemma disable_eq:
  "disable w =
     w\<lparr>det := (det w)\<lparr>scheduleTimerTasks := False\<rparr>,
       timers := filter (\<lambda>p. Some (fst p) \<noteq> timerId (det w)) (timers w)\<rparr>"
  by (cases "timerId (det w)") (simp_all add: disable_def host_defs Let_def)

lemma retryInOneSecond_eq:
  "retryInOneSecond w = rescheduleTimer (clock w (reads w) + 1000) (w\<lparr>reads := Suc (reads w)\<rparr>)"
  by (simp add: retryInOneSecond_def performance_now_def)

lemma startSchedulingTimerTasks_frame:
  "minValue (det (startSchedulingTimerTasks w)) = minValue (det w)"
  "incompleteJSInitiatedRequestStartTimes (det (startSchedulingTimerTasks w)) = incompleteJSInitiatedRequestStartTimes (det w)"
  "networkRequests (det (startSchedulingTimerTasks w)) = networkRequests (det w)"
  "firstConsistentlyInteractiveResolver (det (startSchedulingTimerTasks w)) = firstConsistentlyInteractiveResolver (det w)"
  "scheduleTimerTasks (det (startSchedulingTimerTasks w))"
  "promises (startSchedulingTimerTasks w) = promises w"
  "computeCalls (startSchedulingTimerTasks w) = computeCalls w"
  "loadListeners (startSchedulingTimerTasks w) = loadListeners w"
  "clock (startSchedulingTimerTasks w) = clock w"
  by (simp_all add: startSchedulingTimerTasks_def rescheduleTimer_eq)

lemma rescheduleTimer_frame:
  "minValue (det (rescheduleTimer t w)) = minValue (det w)"
  "incompleteJSInitiatedRequestStartTimes (det (rescheduleTimer t w)) = incompleteJSInitiatedRequestStartTimes (det w)"
  "networkRequests (det (rescheduleTimer t w)) = networkRequests (det w)"
  "firstConsistentlyInteractiveResolver (det (rescheduleTimer t w)) = firstConsistentlyInteractiveResolver (det w)"
  "scheduleTimerTasks (det (rescheduleTimer t w)) = scheduleTimerTasks (det w)"
  "promises (rescheduleTimer t w) = promises w"
  "computeCalls (rescheduleTimer t w) = computeCalls w"
  "loadListeners (rescheduleTimer t w) = loadListeners w"
  "clock (rescheduleTimer t w) = clock w"
  by (simp_all add: rescheduleTimer_eq)

lemma disable_frame:
  "minValue (det (disable w)) = minValue (det w)"
  "incompleteJSInitiatedRequestStartTimes (det (disable w)) = incompleteJSInitiatedRequestStartTimes (det w)"
  "networkRequests (det (disable w)) = networkRequests (det w)"
  "firstConsistentlyInteractiveResolver (det (disable w)) = firstConsistentlyInteractiveResolver (det w)"
  "timerActivationTime (det (disable w)) = timerActivationTime (det w)"
  "timerId (det (disable w)) = timerId (det w)"
  "scheduleTimerTasks (det (disable w)) = False"
  "promises (disable w) = promises w"
  "computeCalls (disable w) = computeCalls w"
  "loadListeners (disable w) = loadListeners w"
  "clock (disable w) = clock w"
  "reads (disable w) = reads w"
  "nextTimer (disable w) = nextTimer w"
  by (simp_all add: disable_eq)

lemma resolvePromise_frame:
  "det (resolvePromise p v w) = det w"
  "timers (resolvePromise p v w) = timers w"
  "nextTimer (resolvePromise p v w) = nextTimer w"
  "computeCalls (resolvePromise p v w) = computeCalls w"
  "loadListeners (resolvePromise p v w) = loadListeners w"
  "clock (resolvePromise p v w) = clock w"
  "reads (resolvePromise p v w) = reads w"
  "length (promises (resolvePromise p v w)) = length (promises w)"
  by (simp_all add: resolvePromise_def)

lemma checkTTI_frame:
  "minValue (det (snd (checkTTI e w))) = minValue (det w)"
  "incompleteJSInitiatedRequestStartTimes (det (snd (checkTTI e w))) = incompleteJSInitiatedRequestStartTimes (det w)"
  "networkRequests (det (snd (checkTTI e w))) = networkRequests (det w)"
  "firstConsistentlyInteractiveResolver (det (snd (checkTTI e w))) = firstConsistentlyInteractiveResolver (det w)"
  "loadListeners (snd (checkTTI e w)) = loadListeners w"
  "clock (snd (checkTTI e w)) = clock w"
  "length (promises (snd (checkTTI e w))) = length (promises w)"
  by (simp_all add: checkTTI_def retryInOneSecond_eq performance_now_def Let_def
        rescheduleTimer_frame disable_frame resolvePromise_frame split: option.splits)

subsection \<open>Activation time\<close>

lemma le_rescheduleTimer:
  "a \<le> timerActivationTime (det w) \<Longrightarrow> a \<le> timerActivationTime (det (rescheduleTimer t w))"
  by (auto simp: rescheduleTimer_eq not_less)

lemma le_startScheduling:
  "a \<le> timerActivationTime (det w) \<Longrightarrow> a \<le> timerActivationTime (det (startSchedulingTimerTasks w))"
  by (simp add: startSchedulingTimerTasks_def le_rescheduleTimer)

lemma le_startScheduling_funpow:
  "a \<le> timerActivationTime (det w) \<Longrightarrow>
   a \<le> timerActivationTime (det ((startSchedulingTimerTasks ^^ n) w))"
  by (induction n) (simp_all add: le_startScheduling)

lemma le_checkTTI:
  "a \<le> timerActivationTime (det w) \<Longrightarrow> a \<le> timerActivationTime (det (snd (checkTTI e w)))"
  by (simp add: checkTTI_def retryInOneSecond_eq performance_now_def Let_def
        le_rescheduleTimer disable_frame resolvePromise_frame split: option.splits)

lemma step_activation_mono:
  "timerActivationTime (det w) \<le> timerActivationTime (det (step ev w))"
proof (cases ev)
  case (GetFCI loaded)
  then show ?thesis
    by (simp add: getFirstConsistentlyInteractive_def Let_def le_startScheduling)
next
  case WindowLoad
  then show ?thesis by (simp add: le_startScheduling_funpow)
next
  case (TimerFire i e)
  then show ?thesis by (simp add: le_checkTTI)
next
  case (ForcedCheck e)
  then show ?thesis by (simp add: le_checkTTI)
qed (simp_all add: le_startScheduling le_rescheduleTimer setMinValue_def disable_frame
       beforeJSInitiatedRequestCallback_def afterJSInitiatedRequestCallback_def performance_now_def)

lemma activationTimes_hd: "hd (activationTimes es w) = timerActivationTime (det w)"
  by (cases es) simp_all

lemma activationTimes_sorted: "sorted (activationTimes es w)"
proof (induction es arbitrary: w)
  case Nil
  show ?case by simp
next
  case (Cons ev es)
  have "\<forall>a\<in>set (activationTimes es (step ev w)). timerActivationTime (det w) \<le> a"
  proof -
    have "activationTimes es (step ev w) \<noteq> []" by (cases es) simp_all
    moreover have "timerActivationTime (det w) \<le> hd (activationTimes es (step ev w))"
      by (simp add: activationTimes_hd step_activation_mono)
    ultimately show ?thesis
      using Cons.IH [of "step ev w"]
      by (cases "activationTimes es (step ev w)") auto
  qed
  with Cons.IH show ?case by simp
qed

subsection \<open>Well-formed worlds\<close>

lemma owned_filter:
  "list_all (\<lambda>p. tid = Some (fst p)) ts \<Longrightarrow> filter (\<lambda>p. Some (fst p) \<noteq> tid) ts = []"
  by (induction ts) auto

lemma wf_new_world: "wf_world (new_world c clk)"
  by (simp add: wf_world_def new_world_def constructor_def)

lemma wf_rescheduleTimer: "wf_world w \<Longrightarrow> wf_world (rescheduleTimer t w)"
  by (simp add: wf_world_def rescheduleTimer_eq owned_filter split: option.splits)

lemma wf_startScheduling: "wf_world w \<Longrightarrow> wf_world (startSchedulingTimerTasks w)"
  unfolding startSchedulingTimerTasks_def
  by (rule wf_rescheduleTimer) (simp add: wf_world_def split: option.splits)

lemma wf_startScheduling_funpow:
  "wf_world w \<Longrightarrow> wf_world ((startSchedulingTimerTasks ^^ n) w)"
  by (induction n) (simp_all add: wf_startScheduling)

lemma wf_disable: "wf_world w \<Longrightarrow> wf_world (disable w)"
  by (simp add: wf_world_def disable_eq owned_filter split: option.splits)

lemma wf_resolvePromise: "wf_world w \<Longrightarrow> wf_world (resolvePromise p v w)"
  by (simp add: wf_world_def resolvePromise_def split: option.splits)

lemma wf_retry: "wf_world w \<Longrightarrow> wf_world (retryInOneSecond w)"
  unfolding retryInOneSecond_eq
  by (rule wf_rescheduleTimer) (simp add: wf_world_def split: option.splits)

lemma wf_reads: "wf_world w \<Longrightarrow> wf_world (w\<lparr>reads := n\<rparr>)"
  by (simp add: wf_world_def split: option.splits)

lemma wf_computeCalls: "wf_world w \<Longrightarrow> wf_world (w\<lparr>computeCalls := cs\<rparr>)"
  by (simp add: wf_world_def split: option.splits)

lemma wf_checkTTI: "wf_world w \<Longrightarrow> wf_world (snd (checkTTI e w))"
  by (simp add: checkTTI_def performance_now_def Let_def wf_retry wf_disable
        wf_resolvePromise wf_computeCalls wf_rescheduleTimer wf_reads split: option.splits)

lemma wf_timer_fired:
  "wf_world w \<Longrightarrow> wf_world (w\<lparr>timers := filter (\<lambda>p. fst p \<noteq> i) (timers w)\<rparr>)"
  by (auto simp: wf_world_def list_all_iff split: option.splits)

lemma wf_step: "wf_world w \<Longrightarrow> wf_world (step ev w)"
proof (cases ev)
  case (GetFCI loaded)
  assume wf: "wf_world w"
  let ?w2 = "w\<lparr>promises := promises w @ [Pending],
               det := (det w)\<lparr>firstConsistentlyInteractiveResolver := Some (length (promises w))\<rparr>\<rparr>"
  have "wf_world ?w2" using wf by (simp add: wf_world_def split: option.splits)
  then have "wf_world (startSchedulingTimerTasks ?w2)"
    and "wf_world (?w2\<lparr>loadListeners := Suc (loadListeners ?w2)\<rparr>)"
    by (simp_all add: wf_startScheduling) (simp add: wf_world_def split: option.splits)
  then show ?thesis using GetFCI
    by (simp add: getFirstConsistentlyInteractive_def Let_def)
next
  case (BeforeRequest i)
  assume "wf_world w"
  then show ?thesis using BeforeRequest
    by (simp add: wf_world_def beforeJSInitiatedRequestCallback_def performance_now_def
          distinct_update split: option.splits)
next
  case (AfterRequest i)
  assume "wf_world w"
  then show ?thesis using AfterRequest
    by (simp add: wf_world_def afterJSInitiatedRequestCallback_def distinct_delete
          split: option.splits)
next
  case (SetMinValue v)
  assume "wf_world w"
  then show ?thesis using SetMinValue
    by (simp add: wf_world_def setMinValue_def split: option.splits)
next
  case (TimerFire i e)
  assume "wf_world w"
  then show ?thesis using TimerFire by (simp add: wf_checkTTI wf_timer_fired)
qed (simp_all add: wf_startScheduling wf_startScheduling_funpow wf_rescheduleTimer
       wf_disable wf_checkTTI)

lemma wf_run: "wf_world w \<Longrightarrow> wf_world (run es w)"
  unfolding run_def by (induction es arbitrary: w) (simp_all add: wf_step)

corollary wf_reachable: "wf_world (run es (new_world c clk))"
  by (rule wf_run) (rule wf_new_world)

subsection \<open>One detection attempt\<close>

lemma checkTTI_eq:
  "checkTTI e w =
     (case engineAnswer e w of
        None \<Rightarrow> (Normal, retryInOneSecond (afterEngineCall e w))
      | Some r \<Rightarrow>
          if r \<noteq> 0
          then (case firstConsistentlyInteractiveResolver (det w) of
                  None \<Rightarrow> (Throw TypeError, afterEngineCall e w)
                | Some p \<Rightarrow>
                    (Normal, retryInOneSecond (disable (resolvePromise p r (afterEngineCall e w)))))
          else (Normal, retryInOneSecond (afterEngineCall e w)))"
proof (cases "getMinValue e (det w) = None")
  case True
  then show ?thesis
    by (simp add: checkTTI_def engineAnswer_def afterEngineCall_def performance_now_def
          Let_def rescheduleTimer_frame cong: option.case_cong if_cong)
next
  case False
  then obtain m where "getMinValue e (det w) = Some m" by auto
  then show ?thesis
    by (simp add: checkTTI_def engineAnswer_def afterEngineCall_def performance_now_def
          Let_def cong: option.case_cong if_cong)
qed

lemma afterEngineCall_frame:
  "minValue (det (afterEngineCall e w)) = minValue (det w)"
  "incompleteJSInitiatedRequestStartTimes (det (afterEngineCall e w)) = incompleteJSInitiatedRequestStartTimes (det w)"
  "networkRequests (det (afterEngineCall e w)) = networkRequests (det w)"
  "firstConsistentlyInteractiveResolver (det (afterEngineCall e w)) = firstConsistentlyInteractiveResolver (det w)"
  "scheduleTimerTasks (det (afterEngineCall e w)) = scheduleTimerTasks (det w)"
  "promises (afterEngineCall e w) = promises w"
  "loadListeners (afterEngineCall e w) = loadListeners w"
  "clock (afterEngineCall e w) = clock w"
  "computeCalls (afterEngineCall e w) =
     computeCalls w @ [(searchStart e, getMinValue e (det w), lastBusy e w, clock w (reads w))]"
  by (simp_all add: afterEngineCall_def Let_def rescheduleTimer_frame)

lemma retryInOneSecond_frame:
  "minValue (det (retryInOneSecond w)) = minValue (det w)"
  "incompleteJSInitiatedRequestStartTimes (det (retryInOneSecond w)) = incompleteJSInitiatedRequestStartTimes (det w)"
  "networkRequests (det (retryInOneSecond w)) = networkRequests (det w)"
  "firstConsistentlyInteractiveResolver (det (retryInOneSecond w)) = firstConsistentlyInteractiveResolver (det w)"
  "scheduleTimerTasks (det (retryInOneSecond w)) = scheduleTimerTasks (det w)"
  "promises (retryInOneSecond w) = promises w"
  "loadListeners (retryInOneSecond w) = loadListeners w"
  "clock (retryInOneSecond w) = clock w"
  "computeCalls (retryInOneSecond w) = computeCalls w"
  by (simp_all add: retryInOneSecond_eq rescheduleTimer_frame)

lemma resolvePromise_promises:
  "promises (resolvePromise p r (afterEngineCall e w)) = promises (resolvePromise p r w)"
  by (simp add: resolvePromise_def afterEngineCall_frame)

lemma checkTTI_computeCalls:
  "computeCalls (snd (checkTTI e w)) =
     computeCalls w @ [(searchStart e, getMinValue e (det w), lastBusy e w, clock w (reads w))]"
  by (simp add: checkTTI_eq retryInOneSecond_frame disable_frame resolvePromise_frame
        afterEngineCall_frame split: option.splits)

lemma checkTTI_promises:
  "promises (snd (checkTTI e w)) =
     (case engineAnswer e w of
        None \<Rightarrow> promises w
      | Some r \<Rightarrow>
          (case firstConsistentlyInteractiveResolver (det w) of
             None \<Rightarrow> promises w
           | Some p \<Rightarrow> if r \<noteq> 0 then promises (resolvePromise p r w) else promises w))"
  by (simp add: checkTTI_eq retryInOneSecond_frame disable_frame resolvePromise_promises
        afterEngineCall_frame split: option.splits)

lemma checkTTI_completion:
  "fst (checkTTI e w) =
     (case engineAnswer e w of
        None \<Rightarrow> Normal
      | Some r \<Rightarrow>
          (case firstConsistentlyInteractiveResolver (det w) of
             None \<Rightarrow> if r \<noteq> 0 then Throw TypeError else Normal
           | Some p \<Rightarrow> Normal))"
  by (simp add: checkTTI_eq split: option.splits)

subsection \<open>The request map and the examples\<close>

lemma delete_filter: "AList.delete k al = filter (\<lambda>p. fst p \<noteq> k) al"
  by (induction al) simp_all

lemma filter_unknown: "k \<notin> fst ` set al \<Longrightarrow> filter (\<lambda>p. fst p \<noteq> k) al = al"
  by (auto simp: filter_id_conv)

lemma length_delete_distinct:
  "distinct (map fst al) \<Longrightarrow> length al \<le> Suc (length (AList.delete k al))"
  by (induction al) (auto simp: image_iff)

lemmas sample_defs = enabledWorld_def sampleConfig_def sampleEnv_def new_world_def constructor_def
  startSchedulingTimerTasks_def

subsection \<open>What one event changes\<close>

lemma startScheduling_funpow_frame:
  "minValue (det ((startSchedulingTimerTasks ^^ n) w)) = minValue (det w)"
  "firstConsistentlyInteractiveResolver (det ((startSchedulingTimerTasks ^^ n) w))
     = firstConsistentlyInteractiveResolver (det w)"
  "promises ((startSchedulingTimerTasks ^^ n) w) = promises w"
  "computeCalls ((startSchedulingTimerTasks ^^ n) w) = computeCalls w"
  by (induction n) (simp_all add: startSchedulingTimerTasks_frame)

lemma resolvePromise_timers_irrelevant:
  "promises (resolvePromise p r (w\<lparr>timers := ts\<rparr>)) = promises (resolvePromise p r w)"
  by (simp add: resolvePromise_def)

lemma engineAnswer_timers_irrelevant:
  "engineAnswer e (w\<lparr>timers := ts\<rparr>) = engineAnswer e w"
  by (simp add: engineAnswer_def lastBusy_def)

lemma step_promises:
  "promises (step ev w) = promises w \<or>
   promises (step ev w) = promises w @ [Pending] \<or>
   (\<exists>p r. firstConsistentlyInteractiveResolver (det w) = Some p \<and>
          promises (step ev w) = promises (resolvePromise p r w))"
proof (cases ev)
  case (GetFCI loaded)
  then show ?thesis
    by (simp add: getFirstConsistentlyInteractive_def Let_def startSchedulingTimerTasks_frame)
next
  case (TimerFire i e)
  then show ?thesis
    by (auto simp: checkTTI_promises resolvePromise_timers_irrelevant split: option.splits)
next
  case (ForcedCheck e)
  then show ?thesis
    by (auto simp: checkTTI_promises split: option.splits)
qed (simp_all add: startSchedulingTimerTasks_frame startScheduling_funpow_frame
       rescheduleTimer_frame disable_frame setMinValue_def
       beforeJSInitiatedRequestCallback_def afterJSInitiatedRequestCallback_def
       performance_now_def)

lemma step_resolver:
  "firstConsistentlyInteractiveResolver (det (step ev w))
     = firstConsistentlyInteractiveResolver (det w) \<or>
   firstConsistentlyInteractiveResolver (det (step ev w)) = Some (length (promises w))"
proof (cases ev)
  case (GetFCI loaded)
  then show ?thesis
    by (simp add: getFirstConsistentlyInteractive_def Let_def startSchedulingTimerTasks_frame)
qed (simp_all add: startSchedulingTimerTasks_frame startScheduling_funpow_frame
       rescheduleTimer_frame disable_frame setMinValue_def checkTTI_frame
       beforeJSInitiatedRequestCallback_def afterJSInitiatedRequestCallback_def
       performance_now_def)

lemma step_minValue:
  "\<not> isSetMinValue ev \<Longrightarrow> minValue (det (step ev w)) = minValue (det w)"
proof (cases ev)
  case (GetFCI loaded)
  then show ?thesis
    by (simp add: getFirstConsistentlyInteractive_def Let_def startSchedulingTimerTasks_frame)
qed (simp_all add: startSchedulingTimerTasks_frame startScheduling_funpow_frame
       rescheduleTimer_frame disable_frame checkTTI_frame
       beforeJSInitiatedRequestCallback_def afterJSInitiatedRequestCallback_def
       performance_now_def)

lemma step_computeCalls:
  "\<exists>xs. computeCalls (step ev w) = computeCalls w @ xs \<and>
        (\<forall>c\<in>set xs. \<exists>e. fst (snd c) = getMinValue e (det w))"
proof (cases ev)
  case (GetFCI loaded)
  then show ?thesis
    by (simp add: getFirstConsistentlyInteractive_def Let_def startSchedulingTimerTasks_frame)
next
  case (TimerFire i e)
  then show ?thesis
    by (auto simp: checkTTI_computeCalls)
next
  case (ForcedCheck e)
  then show ?thesis
    by (auto simp: checkTTI_computeCalls)
qed (simp_all add: startSchedulingTimerTasks_frame startScheduling_funpow_frame
       rescheduleTimer_frame disable_frame setMinValue_def
       beforeJSInitiatedRequestCallback_def afterJSInitiatedRequestCallback_def
       performance_now_def)

lemma getMinValue_override: "minValue d = Some v \<Longrightarrow> v \<noteq> 0 \<Longrightarrow> getMinValue e d = Some v"
  by (simp add: getMinValue_def)

lemma run_calls_override:
  "minValue (det w) = Some v \<Longrightarrow> v \<noteq> 0 \<Longrightarrow> \<forall>ev\<in>set es. \<not> isSetMinValue ev \<Longrightarrow>
   \<exists>xs. computeCalls (run es w) = computeCalls w @ xs \<and> (\<forall>c\<in>set xs. fst (snd c) = Some v)"
proof (induction es arbitrary: w)
  case Nil
  then show ?case by (simp add: run_def)
next
  case (Cons ev es)
  from Cons.prems have m: "minValue (det (step ev w)) = Some v"
    by (simp add: step_minValue)
  obtain xs where xs: "computeCalls (step ev w) = computeCalls w @ xs"
      "\<forall>c\<in>set xs. \<exists>e. fst (snd c) = getMinValue e (det w)"
    using step_computeCalls by blast
  from xs(2) Cons.prems(1,2) have xs_v: "\<forall>c\<in>set xs. fst (snd c) = Some v"
    by (auto simp: getMinValue_override)
  obtain ys where ys: "computeCalls (run es (step ev w)) = computeCalls (step ev w) @ ys"
      "\<forall>c\<in>set ys. fst (snd c) = Some v"
    using Cons.IH [OF m Cons.prems(2)] Cons.prems(3) by auto
  have "computeCalls (run (ev # es) w) = computeCalls w @ (xs @ ys)"
    using xs(1) ys(1) by (simp add: run_def)
  moreover have "\<forall>c\<in>set (xs @ ys). fst (snd c) = Some v"
    using xs_v ys(2) by auto
  ultimately show ?case by blast
qed

lemmas eval_defs = waitingWorld_def getFirstConsistentlyInteractive_def sample_defs
  rescheduleTimer_eq disable_eq checkTTI_eq engineAnswer_def afterEngineCall_def
  retryInOneSecond_eq resolvePromise_def Let_def lastBusy_def searchStart_def firstPaint_def
  incompleteRequestStarts_def getMinValue_def run_def

subsection \<open>Promises\<close>

lemma resolvePromise_nth_other:
  "p \<noteq> q \<Longrightarrow> promises (resolvePromise q r w) ! p = promises w ! p"
  by (simp add: resolvePromise_def)

lemma resolvePromise_nth_settled:
  "promises w ! p = Fulfilled v \<Longrightarrow> promises (resolvePromise q r w) ! p = Fulfilled v"
  by (cases "p = q") (auto simp: resolvePromise_def)

lemma step_promises_length: "length (promises w) \<le> length (promises (step ev w))"
  using step_promises [of ev w] by (auto simp: resolvePromise_frame)

lemma step_promise_other:
  assumes "firstConsistentlyInteractiveResolver (det w) \<noteq> Some p" and "p < length (promises w)"
  shows "promises (step ev w) ! p = promises w ! p"
  using step_promises [of ev w] assms
  by (auto simp: nth_append resolvePromise_nth_other)

lemma step_fulfilled_stable:
  assumes "p < length (promises w)" and "promises w ! p = Fulfilled v"
  shows "promises (step ev w) ! p = Fulfilled v"
  using step_promises [of ev w] assms
  by (auto simp: nth_append resolvePromise_nth_settled)

lemma run_fulfilled_stable:
  "p < length (promises w) \<Longrightarrow> promises w ! p = Fulfilled v \<Longrightarrow>
   promises (run es w) ! p = Fulfilled v"
proof (induction es arbitrary: w)
  case Nil
  then show ?case by (simp add: run_def)
next
  case (Cons ev es)
  have "p < length (promises (step ev w))"
    using Cons.prems(1) step_promises_length [of w ev] by simp
  moreover have "promises (step ev w) ! p = Fulfilled v"
    using Cons.prems by (rule step_fulfilled_stable)
  ultimately have "promises (run es (step ev w)) ! p = Fulfilled v"
    by (rule Cons.IH)
  then show ?case by (simp add: run_def)
qed

lemma run_old_promises:
  "firstConsistentlyInteractiveResolver (det w) = Some q \<Longrightarrow> n \<le> q \<Longrightarrow>
   n \<le> length (promises w) \<Longrightarrow> p < n \<Longrightarrow>
   promises (run es w) ! p = promises w ! p"
proof (induction es arbitrary: w q)
  case Nil
  then show ?case by (simp add: run_def)
next
  case (Cons ev es)
  have same: "promises (step ev w) ! p = promises w ! p"
    using Cons.prems by (intro step_promise_other) auto
  have len: "n \<le> length (promises (step ev w))"
    using Cons.prems(3) step_promises_length [of w ev] by simp
  obtain q' where q': "firstConsistentlyInteractiveResolver (det (step ev w)) = Some q'" "n \<le> q'"
    using step_resolver [of ev w] Cons.prems(1,2,3) by auto
  have "promises (run es (step ev w)) ! p = promises (step ev w) ! p"
    using q' len Cons.prems(4) by (rule Cons.IH)
  with same show ?case by (simp add: run_def)
qed

lemma step_fulfils_by_check:
  assumes "p < length (promises w)" and "promises w ! p = Pending"
    and "promises (step ev w) ! p = Fulfilled v"
  shows "firstConsistentlyInteractiveResolver (det w) = Some p \<and>
         (\<exists>e. (ev = ForcedCheck e \<or> (\<exists>i. ev = TimerFire i e)) \<and> engineAnswer e w = Some v)"
proof (cases ev)
  case (GetFCI loaded)
  then show ?thesis using assms
    by (cases loaded)
       (simp_all add: getFirstConsistentlyInteractive_def Let_def
          startSchedulingTimerTasks_frame nth_append)
next
  case (TimerFire i e)
  then show ?thesis using assms
    by (auto simp: checkTTI_promises resolvePromise_def engineAnswer_timers_irrelevant
          nth_list_update split: option.splits if_splits)
next
  case (ForcedCheck e)
  then show ?thesis using assms
    by (auto simp: checkTTI_promises resolvePromise_def nth_list_update
          split: option.splits if_splits)
qed (use assms in \<open>simp_all add: startSchedulingTimerTasks_frame startScheduling_funpow_frame
       rescheduleTimer_frame disable_frame setMinValue_def
       beforeJSInitiatedRequestCallback_def afterJSInitiatedRequestCallback_def
       performance_now_def\<close>)

subsection \<open>A detector that has stopped\<close>

lemma wf_afterEngineCall: "wf_world w \<Longrightarrow> wf_world (afterEngineCall e w)"
  by (simp add: afterEngineCall_def Let_def wf_computeCalls wf_rescheduleTimer wf_reads)

lemma wf_disable_timers: "wf_world w \<Longrightarrow> timers (disable w) = []"
  by (simp add: wf_world_def disable_eq owned_filter)

lemma retry_stopped: "\<not> scheduleTimerTasks (det w) \<Longrightarrow>
  retryInOneSecond w = w\<lparr>reads := Suc (reads w)\<rparr>"
  by (simp add: retryInOneSecond_eq rescheduleTimer_eq)

lemma afterEngineCall_stopped: "\<not> scheduleTimerTasks (det w) \<Longrightarrow>
  afterEngineCall e w =
    w\<lparr>reads := Suc (reads w),
      computeCalls := computeCalls w @
        [(searchStart e, getMinValue e (det w), lastBusy e w, clock w (reads w))]\<rparr>"
  by (simp add: afterEngineCall_def Let_def rescheduleTimer_eq)

lemma checkTTI_resolving:
  assumes "firstConsistentlyInteractiveResolver (det w) = Some p"
    and "engineAnswer e w = Some r" and "r \<noteq> 0"
  shows "checkTTI e w =
    (Normal, (disable (resolvePromise p r (afterEngineCall e w)))
       \<lparr>reads := Suc (reads (afterEngineCall e w))\<rparr>)"
  using assms by (simp add: checkTTI_eq retry_stopped disable_frame resolvePromise_frame)

lemma step_stopped:
  assumes "timers w = []" and "\<not> scheduleTimerTasks (det w)" and "bystander ev"
  shows "timers (step ev w) = [] \<and> \<not> scheduleTimerTasks (det (step ev w)) \<and>
         promises (step ev w) = promises w \<and> computeCalls (step ev w) = computeCalls w"
  using assms
  by (cases ev)
     (simp_all add: setMinValue_def rescheduleTimer_eq disable_eq
        beforeJSInitiatedRequestCallback_def afterJSInitiatedRequestCallback_def
        performance_now_def)

lemma run_stopped:
  "timers w = [] \<Longrightarrow> \<not> scheduleTimerTasks (det w) \<Longrightarrow> \<forall>ev\<in>set es. bystander ev \<Longrightarrow>
   timers (run es w) = [] \<and> \<not> scheduleTimerTasks (det (run es w)) \<and>
   promises (run es w) = promises w \<and> computeCalls (run es w) = computeCalls w"
proof (induction es arbitrary: w)
  case Nil
  then show ?case by (simp add: run_def)
next
  case (Cons ev es)
  have s: "timers (step ev w) = [] \<and> \<not> scheduleTimerTasks (det (step ev w)) \<and>
         promises (step ev w) = promises w \<and> computeCalls (step ev w) = computeCalls w"
    using Cons.prems by (intro step_stopped) auto
  then have "timers (run es (step ev w)) = [] \<and> \<not> scheduleTimerTasks (det (run es (step ev w))) \<and>
     promises (run es (step ev w)) = promises (step ev w) \<and>
     computeCalls (run es (step ev w)) = computeCalls (step ev w)"
    using Cons.prems(3) by (intro Cons.IH) auto
  with s show ?case by (simp add: run_def)
qed

section \<open>Postpone-only scheduling\<close>

text \<open>
  Claim C2.  For every sequence of \<^verbatim>\<open>rescheduleTimer(t)\<close> calls on one detector,
  starting in any world, the values that \<^verbatim>\<open>_timerActivationTime\<close> takes (before the
  first call and after each call) form a non-decreasing sequence.
\<close>

theorem activation_time_nondecreasing:
  "sorted (activationTimes (map Reschedule ts) w)"
  by (rule activationTimes_sorted)

text \<open>
  Claim C3, as amended.  While the detector is enabled, a call
  \<^verbatim>\<open>rescheduleTimer(earliestTime)\<close> is ignored exactly when \<open>earliestTime\<close> is strictly
  less than \<^verbatim>\<open>_timerActivationTime\<close>: the world is unchanged.  Otherwise, also when
  the two are equal, the detector's timer is cancelled, a new one is armed with delay
  \<open>earliestTime - performance.now()\<close>, and \<^verbatim>\<open>_timerActivationTime\<close> becomes
  \<open>earliestTime\<close>.
\<close>

theorem rescheduleTimer_when_enabled:
  assumes "scheduleTimerTasks (det w)"
  shows "(Some t < timerActivationTime (det w) \<longrightarrow> rescheduleTimer t w = w) \<and>
         (\<not> Some t < timerActivationTime (det w) \<longrightarrow>
            timerActivationTime (det (rescheduleTimer t w)) = Some t \<and>
            timerId (det (rescheduleTimer t w)) = Some (nextTimer w) \<and>
            timers (rescheduleTimer t w) =
              filter (\<lambda>p. Some (fst p) \<noteq> timerId (det w)) (timers w)
                @ [(nextTimer w, t - clock w (reads w))])"
  using assms by (simp add: rescheduleTimer_eq)

theorem rescheduleTimer_when_enabled_witness:
  "scheduleTimerTasks (det enabledWorld) \<and>
   \<not> Some 1000 < timerActivationTime (det enabledWorld) \<and>
   timerActivationTime (det (rescheduleTimer 1000 enabledWorld)) = Some 1000 \<and>
   timers enabledWorld = [(1, 0)] \<and>
   timers (rescheduleTimer 1000 enabledWorld) = [(2, 999)]"
  using rescheduleTimer_when_enabled [of enabledWorld 1000]
  by (simp add: sample_defs rescheduleTimer_eq)

text \<open>
  The claim as stated says a call with \<open>earliestTime\<close> equal to the activation time is
  ignored.  On an enabled detector whose timer 1 is armed for time 0, the call
  \<^verbatim>\<open>rescheduleTimer(0)\<close> cancels timer 1 and arms timer 2.
\<close>

theorem rescheduleTimer_equal_time_rearms:
  "scheduleTimerTasks (det enabledWorld) \<and>
   Some 0 \<le> timerActivationTime (det enabledWorld) \<and>
   timers enabledWorld = [(1, 0)] \<and>
   timers (rescheduleTimer 0 enabledWorld) = [(2, - 1)] \<and>
   rescheduleTimer 0 enabledWorld \<noteq> enabledWorld"
proof -
  have t: "timers enabledWorld = [(1, 0)]" "timers (rescheduleTimer 0 enabledWorld) = [(2, - 1)]"
    by (simp_all add: sample_defs rescheduleTimer_eq)
  then have "rescheduleTimer 0 enabledWorld \<noteq> enabledWorld" by auto
  with t show ?thesis by (simp add: sample_defs rescheduleTimer_eq)
qed

section \<open>Enabling\<close>

text \<open>
  Claim C8, as amended.  \<^verbatim>\<open>startSchedulingTimerTasks\<close> has no guard: every call sets
  the scheduling flag and calls \<^verbatim>\<open>rescheduleTimer(0)\<close>.  When the activation time is
  already greater than 0 nothing but the flag changes, so no check is triggered; otherwise
  (a new detector, or activation time exactly 0) the detector's timer is cancelled and
  a new one armed for time 0.
\<close>

theorem startScheduling_effect:
  "scheduleTimerTasks (det (startSchedulingTimerTasks w)) \<and>
   (Some 0 < timerActivationTime (det w) \<longrightarrow>
      startSchedulingTimerTasks w = w\<lparr>det := (det w)\<lparr>scheduleTimerTasks := True\<rparr>\<rparr>) \<and>
   (\<not> Some 0 < timerActivationTime (det w) \<longrightarrow>
      timerActivationTime (det (startSchedulingTimerTasks w)) = Some 0 \<and>
      timerId (det (startSchedulingTimerTasks w)) = Some (nextTimer w) \<and>
      timers (startSchedulingTimerTasks w) =
        filter (\<lambda>p. Some (fst p) \<noteq> timerId (det w)) (timers w)
          @ [(nextTimer w, 0 - clock w (reads w))])"
  by (simp add: startSchedulingTimerTasks_def rescheduleTimer_eq)

theorem startScheduling_effect_witness:
  "\<not> Some 0 < timerActivationTime (det (new_world sampleConfig real)) \<and>
   timers (startSchedulingTimerTasks (new_world sampleConfig real)) = [(1, 0)] \<and>
   Some 0 < timerActivationTime (det (disable (rescheduleTimer 1000 enabledWorld))) \<and>
   timers (startSchedulingTimerTasks (disable (rescheduleTimer 1000 enabledWorld))) = []"
  using startScheduling_effect [of "new_world sampleConfig real"]
    startScheduling_effect [of "disable (rescheduleTimer 1000 enabledWorld)"]
  by (simp add: sample_defs rescheduleTimer_eq disable_eq)

text \<open>
  The claim as stated says a call on an enabled detector is a no-op.  Called a second
  time before the first check has run, it cancels timer 1 and arms timer 2.
\<close>

theorem startScheduling_twice_rearms:
  "scheduleTimerTasks (det enabledWorld) \<and>
   timerId (det enabledWorld) = Some 1 \<and>
   timers enabledWorld = [(1, 0)] \<and>
   timerId (det (startSchedulingTimerTasks enabledWorld)) = Some 2 \<and>
   timers (startSchedulingTimerTasks enabledWorld) = [(2, - 1)]"
  by (simp add: sample_defs rescheduleTimer_eq)

section \<open>Request tracking\<close>

text \<open>
  Claim C9.  In a well-formed world, \<^verbatim>\<open>_afterJSInitiatedRequestCallback(id)\<close> never
  throws, removes at most one entry of the request map, leaves every entry under another
  key as it was and in place, changes nothing else, changes nothing at all when the id is
  unknown, and called a second time does what the first call did.
\<close>

theorem afterRequest_idempotent:
  assumes "wf_world w"
  shows "fst (afterJSInitiatedRequestCallback i w) = Normal \<and>
         length (incompleteJSInitiatedRequestStartTimes (det w))
           \<le> Suc (length (incompleteJSInitiatedRequestStartTimes
                           (det (snd (afterJSInitiatedRequestCallback i w))))) \<and>
         incompleteJSInitiatedRequestStartTimes (det (snd (afterJSInitiatedRequestCallback i w)))
           = filter (\<lambda>p. fst p \<noteq> i) (incompleteJSInitiatedRequestStartTimes (det w)) \<and>
         (i \<notin> fst ` set (incompleteJSInitiatedRequestStartTimes (det w)) \<longrightarrow>
            snd (afterJSInitiatedRequestCallback i w) = w) \<and>
         afterJSInitiatedRequestCallback i (snd (afterJSInitiatedRequestCallback i w))
           = afterJSInitiatedRequestCallback i w \<and>
         snd (afterJSInitiatedRequestCallback i w)
           = w\<lparr>det := (det w)\<lparr>incompleteJSInitiatedRequestStartTimes :=
                 incompleteJSInitiatedRequestStartTimes
                   (det (snd (afterJSInitiatedRequestCallback i w)))\<rparr>\<rparr>"
proof -
  have "distinct (map fst (incompleteJSInitiatedRequestStartTimes (det w)))"
    using assms by (simp add: wf_world_def)
  then have "length (incompleteJSInitiatedRequestStartTimes (det w))
      \<le> Suc (length (filter (\<lambda>p. fst p \<noteq> i) (incompleteJSInitiatedRequestStartTimes (det w))))"
    using length_delete_distinct [of "incompleteJSInitiatedRequestStartTimes (det w)" i]
    by (simp add: delete_filter)
  then show ?thesis
    by (simp add: afterJSInitiatedRequestCallback_def delete_filter filter_unknown)
qed

theorem afterRequest_idempotent_witness:
  "wf_world (step (BeforeRequest ''b'') (step (BeforeRequest ''a'') (new_world sampleConfig real))) \<and>
   incompleteJSInitiatedRequestStartTimes
     (det (step (BeforeRequest ''b'') (step (BeforeRequest ''a'') (new_world sampleConfig real))))
     = [(''a'', 0), (''b'', 1)] \<and>
   incompleteJSInitiatedRequestStartTimes
     (det (snd (afterJSInitiatedRequestCallback ''a''
        (step (BeforeRequest ''b'') (step (BeforeRequest ''a'') (new_world sampleConfig real))))))
     = [(''b'', 1)] \<and>
   ''c'' \<notin> fst ` set (incompleteJSInitiatedRequestStartTimes
     (det (step (BeforeRequest ''b'') (step (BeforeRequest ''a'') (new_world sampleConfig real))))) \<and>
   snd (afterJSInitiatedRequestCallback ''c''
        (step (BeforeRequest ''b'') (step (BeforeRequest ''a'') (new_world sampleConfig real))))
     = step (BeforeRequest ''b'') (step (BeforeRequest ''a'') (new_world sampleConfig real))"
  using afterRequest_idempotent [of "step (BeforeRequest ''b'') (step (BeforeRequest ''a'') (new_world sampleConfig real))" "''a''"]
    afterRequest_idempotent [of "step (BeforeRequest ''b'') (step (BeforeRequest ''a'') (new_world sampleConfig real))" "''c''"]
  by (simp add: wf_world_def sample_defs beforeJSInitiatedRequestCallback_def performance_now_def
        afterJSInitiatedRequestCallback_def)

section \<open>The minimum value\<close>

text \<open>
  Claim C5, as amended.  The minimum value a detection attempt uses is the override when
  one is stored and is not 0; otherwise (no override, or an override of 0) it is
  \<open>domContentLoadedEventEnd - navigationStart\<close> when \<open>domContentLoadedEventEnd\<close> is
  available (not 0), and \<^verbatim>\<open>null\<close> when it is not.  After \<^verbatim>\<open>setMinValue(v)\<close> with
  \<open>v\<close> not 0, every check of every later run that does not call \<^verbatim>\<open>setMinValue\<close> again
  passes \<open>v\<close> to the engine, whatever the environment of the check.
\<close>

theorem getMinValue_override_or_dcl:
  "(minValue d = Some v \<and> v \<noteq> 0 \<longrightarrow> getMinValue e d = Some v) \<and>
   ((minValue d = None \<or> minValue d = Some 0) \<and> domContentLoadedEventEnd e \<noteq> 0 \<longrightarrow>
      getMinValue e d = Some (domContentLoadedEventEnd e - navigationStart e)) \<and>
   ((minValue d = None \<or> minValue d = Some 0) \<and> domContentLoadedEventEnd e = 0 \<longrightarrow>
      getMinValue e d = None) \<and>
   (v \<noteq> 0 \<and> (\<forall>ev\<in>set es. \<not> isSetMinValue ev) \<longrightarrow>
      (\<forall>c\<in>set (drop (length (computeCalls w)) (computeCalls (run es (setMinValue v w)))).
         fst (snd c) = Some v))"
proof -
  have "\<forall>c\<in>set (drop (length (computeCalls w)) (computeCalls (run es (setMinValue v w)))).
         fst (snd c) = Some v"
    if "v \<noteq> 0" "\<forall>ev\<in>set es. \<not> isSetMinValue ev"
  proof -
    have "minValue (det (setMinValue v w)) = Some v" by (simp add: setMinValue_def)
    from run_calls_override [OF this that]
    obtain xs where "computeCalls (run es (setMinValue v w)) = computeCalls (setMinValue v w) @ xs"
      "\<forall>c\<in>set xs. fst (snd c) = Some v" by blast
    then show ?thesis by (simp add: setMinValue_def)
  qed
  then show ?thesis by (auto simp: getMinValue_def)
qed

theorem getMinValue_override_or_dcl_witness:
  "getMinValue (sampleEnv 0 None) (det (setMinValue 20000 (new_world sampleConfig real))) = Some 20000 \<and>
   getMinValue (sampleEnv 1500 None) (det (new_world sampleConfig real)) = Some 500 \<and>
   getMinValue (sampleEnv 0 None) (det (new_world sampleConfig real)) = None \<and>
   map (\<lambda>c. fst (snd c))
     (computeCalls (run [StartScheduling, TimerFire 1 (sampleEnv 0 None), TimerFire 2 (sampleEnv 1500 None)]
        (setMinValue 20000 (new_world sampleConfig real))))
     = [Some 20000, Some 20000]"
  using getMinValue_override_or_dcl [of "det (setMinValue 20000 (new_world sampleConfig real))" 20000
      "sampleEnv 0 None" "[StartScheduling, TimerFire 1 (sampleEnv 0 None), TimerFire 2 (sampleEnv 1500 None)]"
      "new_world sampleConfig real"]
    getMinValue_override_or_dcl [of "det (new_world sampleConfig real)" 1 "sampleEnv 1500 None" "[]"
      "new_world sampleConfig real"]
    getMinValue_override_or_dcl [of "det (new_world sampleConfig real)" 1 "sampleEnv 0 None" "[]"
      "new_world sampleConfig real"]
  by (simp add: run_def sample_defs setMinValue_def getMinValue_def rescheduleTimer_eq
        checkTTI_eq engineAnswer_def afterEngineCall_def retryInOneSecond_eq Let_def
        lastBusy_def searchStart_def firstPaint_def incompleteRequestStarts_def)

text \<open>
  The claim as stated promises the override whenever one has been set.  After
  \<^verbatim>\<open>setMinValue(0)\<close> the stored override is 0, and the value used is the one derived
  from \<open>domContentLoadedEventEnd\<close>.
\<close>

theorem setMinValue_zero_not_used:
  "minValue (det (setMinValue 0 (new_world sampleConfig real))) = Some 0 \<and>
   getMinValue (sampleEnv 1500 None) (det (setMinValue 0 (new_world sampleConfig real))) = Some 500"
  by (simp add: sample_defs setMinValue_def getMinValue_def)

section \<open>Detection attempts\<close>

text \<open>
  Claim C1, as amended.  In a well-formed world whose detector stores a resolver, a
  detection attempt that obtains a present result other than 0 from the engine returns
  normally, fulfils the resolver's promise with that result if it is still pending (a
  settled promise keeps its value), and leaves no timer armed and the detector not
  scheduling; the reschedule at the end of the attempt arms nothing.  From then on, as
  long as nobody enables the detector again or calls \<^verbatim>\<open>_checkTTI\<close> directly, no event
  arms a timer, runs a detection attempt or changes a promise.
\<close>

theorem checkTTI_resolves_and_stops:
  assumes "wf_world w"
    and "firstConsistentlyInteractiveResolver (det w) = Some p"
    and "engineAnswer e w = Some r" and "r \<noteq> 0"
    and "\<forall>ev\<in>set es. bystander ev"
  shows "fst (checkTTI e w) = Normal \<and>
         promises (snd (checkTTI e w)) =
           (if promises w ! p = Pending then (promises w)[p := Fulfilled r] else promises w) \<and>
         timers (snd (checkTTI e w)) = [] \<and>
         \<not> scheduleTimerTasks (det (snd (checkTTI e w))) \<and>
         timers (run es (snd (checkTTI e w))) = [] \<and>
         promises (run es (snd (checkTTI e w))) = promises (snd (checkTTI e w)) \<and>
         computeCalls (run es (snd (checkTTI e w))) = computeCalls (snd (checkTTI e w))"
proof -
  let ?w' = "snd (checkTTI e w)"
  have eq: "checkTTI e w =
    (Normal, (disable (resolvePromise p r (afterEngineCall e w)))
       \<lparr>reads := Suc (reads (afterEngineCall e w))\<rparr>)"
    using assms(2-4) by (rule checkTTI_resolving)
  have "wf_world (resolvePromise p r (afterEngineCall e w))"
    using assms(1) by (simp add: wf_afterEngineCall wf_resolvePromise)
  then have t: "timers ?w' = []"
    by (simp add: eq wf_disable_timers)
  have f: "\<not> scheduleTimerTasks (det ?w')"
    by (simp add: eq disable_frame)
  have "p < length (promises w)"
    using assms(1,2) by (simp add: wf_world_def)
  then have ps: "promises ?w' =
      (if promises w ! p = Pending then (promises w)[p := Fulfilled r] else promises w)"
    by (simp add: eq disable_frame resolvePromise_promises) (simp add: resolvePromise_def)
  from run_stopped [OF t f assms(5)] t f ps show ?thesis
    by (simp add: eq)
qed

theorem checkTTI_resolves_and_stops_witness:
  "wf_world (waitingWorld\<lparr>timers := []\<rparr>) \<and>
   engineAnswer (sampleEnv 1500 (Some 7000)) (waitingWorld\<lparr>timers := []\<rparr>) = Some 7000 \<and>
   promises waitingWorld = [Pending] \<and>
   step (TimerFire 1 (sampleEnv 1500 (Some 7000))) waitingWorld
     = snd (checkTTI (sampleEnv 1500 (Some 7000)) (waitingWorld\<lparr>timers := []\<rparr>)) \<and>
   promises (step (TimerFire 1 (sampleEnv 1500 (Some 7000))) waitingWorld) = [Fulfilled 7000] \<and>
   promises (run [TimerFire 1 (sampleEnv 1500 (Some 8000)), Reschedule 9000, BeforeRequest ''a'']
      (step (TimerFire 1 (sampleEnv 1500 (Some 7000))) waitingWorld)) = [Fulfilled 7000]"
  using checkTTI_resolves_and_stops [of "waitingWorld\<lparr>timers := []\<rparr>" 0
      "sampleEnv 1500 (Some 7000)" 7000
      "[TimerFire 1 (sampleEnv 1500 (Some 8000)), Reschedule 9000, BeforeRequest ''a'']"]
  by (simp add: eval_defs wf_world_def)

text \<open>
  The claim as stated covers every present result.  With a pending promise and timer 1
  firing, an engine answer of 0 is not passed to the resolver: the promise stays pending
  and the attempt arms timer 2 for a retry.
\<close>

theorem checkTTI_zero_answer_not_resolved:
  "engineAnswer (sampleEnv 1500 (Some 0)) (waitingWorld\<lparr>timers := []\<rparr>) = Some 0 \<and>
   firstConsistentlyInteractiveResolver (det waitingWorld) = Some 0 \<and>
   timers waitingWorld = [(1, 0)] \<and>
   promises (step (TimerFire 1 (sampleEnv 1500 (Some 0))) waitingWorld) = [Pending] \<and>
   timers (step (TimerFire 1 (sampleEnv 1500 (Some 0))) waitingWorld) = [(2, 999)] \<and>
   scheduleTimerTasks (det (step (TimerFire 1 (sampleEnv 1500 (Some 0))) waitingWorld))"
  by (simp add: eval_defs)

text \<open>
  Claim C4 fails on the code through a missing \<^verbatim>\<open>return\<close>.  Timer 1 fires while the
  minimum value is \<^verbatim>\<open>null\<close>: the attempt asks for the postponement, then calls the
  engine all the same (with the \<^verbatim>\<open>null\<close> minimum value), and since the engine answers
  1200 it fulfils the promise and disables the detector, which cancels the postponed
  check.
\<close>

theorem checkTTI_null_minValue_falls_through:
  "scheduleTimerTasks (det earlyWorld) \<and>
   timers earlyWorld = [(1, - 10000)] \<and>
   promises earlyWorld = [Pending] \<and>
   computeCalls earlyWorld = [] \<and>
   getMinValue earlyChromeEnv (det earlyWorld) = None \<and>
   lastBusy earlyChromeEnv earlyWorld = 0 \<and>
   fst (checkTTI earlyChromeEnv (earlyWorld\<lparr>timers := []\<rparr>)) = Normal \<and>
   step (TimerFire 1 earlyChromeEnv) earlyWorld
     = snd (checkTTI earlyChromeEnv (earlyWorld\<lparr>timers := []\<rparr>)) \<and>
   computeCalls (step (TimerFire 1 earlyChromeEnv) earlyWorld) = [(1200, None, 0, 10010)] \<and>
   promises (step (TimerFire 1 earlyChromeEnv) earlyWorld) = [Fulfilled 1200] \<and>
   timers (step (TimerFire 1 earlyChromeEnv) earlyWorld) = [] \<and>
   \<not> scheduleTimerTasks (det (step (TimerFire 1 earlyChromeEnv) earlyWorld))"
  by (simp add: earlyWorld_def earlyChromeEnv_def lateClock_def eval_defs)

text \<open>
  Claim C6, as amended.  In a well-formed world whose detector is not scheduling (as after
  \<^verbatim>\<open>disable()\<close>), a call of \<^verbatim>\<open>_checkTTI\<close> leaves every field of the detector and the
  timers unchanged, but it is not a no-op: it calls the engine, and when the answer is
  present and not 0 it fulfils the pending promise of the stored resolver (or throws a
  \<^verbatim>\<open>TypeError\<close> when no resolver is stored).  The promise is left alone when the answer
  is absent or 0.
\<close>

theorem checkTTI_when_disabled:
  assumes "wf_world w" and "\<not> scheduleTimerTasks (det w)"
  shows "det (snd (checkTTI e w)) = det w \<and>
         timers (snd (checkTTI e w)) = timers w \<and>
         nextTimer (snd (checkTTI e w)) = nextTimer w \<and>
         computeCalls (snd (checkTTI e w)) =
           computeCalls w @ [(searchStart e, getMinValue e (det w), lastBusy e w, clock w (reads w))] \<and>
         (engineAnswer e w = None \<or> engineAnswer e w = Some 0 \<longrightarrow>
            fst (checkTTI e w) = Normal \<and> promises (snd (checkTTI e w)) = promises w) \<and>
         (\<forall>r. engineAnswer e w = Some r \<and> r \<noteq> 0 \<and>
              firstConsistentlyInteractiveResolver (det w) = None \<longrightarrow>
            fst (checkTTI e w) = Throw TypeError \<and> promises (snd (checkTTI e w)) = promises w) \<and>
         (\<forall>r p. engineAnswer e w = Some r \<and> r \<noteq> 0 \<and>
              firstConsistentlyInteractiveResolver (det w) = Some p \<longrightarrow>
            fst (checkTTI e w) = Normal \<and>
            promises (snd (checkTTI e w)) =
              (if promises w ! p = Pending then (promises w)[p := Fulfilled r] else promises w))"
proof -
  have t: "timers w = []" using assms by (simp add: wf_world_def)
  have a: "afterEngineCall e w =
    w\<lparr>reads := Suc (reads w),
      computeCalls := computeCalls w @
        [(searchStart e, getMinValue e (det w), lastBusy e w, clock w (reads w))]\<rparr>"
    using assms(2) by (rule afterEngineCall_stopped)
  have len: "firstConsistentlyInteractiveResolver (det w) = Some p \<Longrightarrow> p < length (promises w)" for p
    using assms(1) by (simp add: wf_world_def)
  show ?thesis
  proof (cases "engineAnswer e w")
    case None
    then show ?thesis
      using assms(2) t by (simp add: checkTTI_eq a retry_stopped)
  next
    case (Some r)
    show ?thesis
    proof (cases "r = 0")
      case True
      then show ?thesis
        using Some assms(2) t by (simp add: checkTTI_eq a retry_stopped)
    next
      case False
      show ?thesis
      proof (cases "firstConsistentlyInteractiveResolver (det w)")
        case None
        then show ?thesis
          using Some False assms(2) t by (simp add: checkTTI_eq a)
      next
        case (Some p)
        then show ?thesis
          using \<open>engineAnswer e w = Some r\<close> False assms(2) t len [OF Some]
          by (simp add: checkTTI_eq a retry_stopped disable_eq resolvePromise_def)
      qed
    qed
  qed
qed

theorem checkTTI_when_disabled_witness:
  "wf_world disabledWorld \<and> \<not> scheduleTimerTasks (det disabledWorld) \<and>
   det (snd (checkTTI (sampleEnv 1500 None) disabledWorld)) = det disabledWorld \<and>
   timers (snd (checkTTI (sampleEnv 1500 None) disabledWorld)) = [] \<and>
   promises (snd (checkTTI (sampleEnv 1500 None) disabledWorld)) = [Pending] \<and>
   computeCalls (snd (checkTTI (sampleEnv 1500 None) disabledWorld)) = [(500, Some 500, 0, 1)]"
  using checkTTI_when_disabled [of disabledWorld "sampleEnv 1500 None"]
  by (simp add: disabledWorld_def eval_defs wf_world_def)

text \<open>
  The claim as stated says the forced call does not resolve the promise.  After
  \<^verbatim>\<open>disable()\<close>, a forced call whose engine answers 7000 fulfils the pending promise.
\<close>

theorem checkTTI_after_disable_resolves:
  "\<not> scheduleTimerTasks (det disabledWorld) \<and>
   timers disabledWorld = [] \<and>
   promises disabledWorld = [Pending] \<and>
   promises (step (ForcedCheck (sampleEnv 1500 (Some 7000))) disabledWorld) = [Fulfilled 7000]"
  by (simp add: disabledWorld_def eval_defs)

section \<open>The promise\<close>

text \<open>
  Claim C7, as amended.  \<^verbatim>\<open>getFirstConsistentlyInteractive\<close> returns a new pending
  promise and stores its resolver.  On a loaded document it starts scheduling at once;
  otherwise it registers one more \<^verbatim>\<open>load\<close> listener and the \<^verbatim>\<open>load\<close> event then starts
  scheduling.  A promise is fulfilled at most once: once fulfilled it keeps its value in
  every run.  A pending promise becomes fulfilled only through a detection attempt, while
  its resolver is the stored one, and with the engine's answer of that attempt.  No run
  is bound to fulfil it.
\<close>

theorem getFirstConsistentlyInteractive_promise:
  "getFirstConsistentlyInteractive True w =
     (length (promises w),
      startSchedulingTimerTasks
        (w\<lparr>promises := promises w @ [Pending],
           det := (det w)\<lparr>firstConsistentlyInteractiveResolver := Some (length (promises w))\<rparr>\<rparr>)) \<and>
   getFirstConsistentlyInteractive False w =
     (length (promises w),
      w\<lparr>promises := promises w @ [Pending],
        det := (det w)\<lparr>firstConsistentlyInteractiveResolver := Some (length (promises w))\<rparr>,
        loadListeners := Suc (loadListeners w)\<rparr>) \<and>
   step WindowLoad (snd (getFirstConsistentlyInteractive False w)) =
     (startSchedulingTimerTasks ^^ Suc (loadListeners w))
       (snd (getFirstConsistentlyInteractive False w)) \<and>
   (p < length (promises w) \<and> promises w ! p = Fulfilled v \<longrightarrow>
      promises (run es w) ! p = Fulfilled v) \<and>
   (p < length (promises w) \<and> promises w ! p = Pending \<and>
    promises (step ev w) ! p = Fulfilled v \<longrightarrow>
      firstConsistentlyInteractiveResolver (det w) = Some p \<and>
      (\<exists>e. (ev = ForcedCheck e \<or> (\<exists>i. ev = TimerFire i e)) \<and> engineAnswer e w = Some v))"
proof -
  have "step WindowLoad (snd (getFirstConsistentlyInteractive False w)) =
     (startSchedulingTimerTasks ^^ Suc (loadListeners w))
       (snd (getFirstConsistentlyInteractive False w))"
    by (simp add: getFirstConsistentlyInteractive_def Let_def del: funpow.simps)
  then show ?thesis
    using run_fulfilled_stable [of p w v es] step_fulfils_by_check [of p w ev v]
    by (simp add: getFirstConsistentlyInteractive_def Let_def del: funpow.simps)
qed

theorem getFirstConsistentlyInteractive_promise_witness:
  "promises (step (TimerFire 1 (sampleEnv 1500 (Some 7000))) waitingWorld) = [Fulfilled 7000] \<and>
   promises (run [GetFCI True, ForcedCheck (sampleEnv 1500 (Some 8000))]
      (step (TimerFire 1 (sampleEnv 1500 (Some 7000))) waitingWorld)) ! 0 = Fulfilled 7000 \<and>
   promises waitingWorld ! 0 = Pending \<and>
   firstConsistentlyInteractiveResolver (det waitingWorld) = Some 0 \<and>
   engineAnswer (sampleEnv 1500 (Some 7000)) waitingWorld = Some 7000"
  using getFirstConsistentlyInteractive_promise
      [of "step (TimerFire 1 (sampleEnv 1500 (Some 7000))) waitingWorld" 0 7000
        "[GetFCI True, ForcedCheck (sampleEnv 1500 (Some 8000))]" "GetFCI True"]
    getFirstConsistentlyInteractive_promise
      [of waitingWorld 0 7000 "[]" "TimerFire 1 (sampleEnv 1500 (Some 7000))"]
  by (simp add: eval_defs)

text \<open>
  The claim as stated says the returned promise resolves exactly once.  A promise
  requested from a detector that is disabled before its first check stays pending:
  no timer is armed any more, and the events that follow change nothing.
\<close>

theorem promise_never_resolves_after_disable:
  "promises (run [GetFCI True, Disable] (new_world sampleConfig real)) = [Pending] \<and>
   timers (run [GetFCI True, Disable] (new_world sampleConfig real)) = [] \<and>
   promises (run [GetFCI True, Disable, TimerFire 1 (sampleEnv 1500 (Some 7000)), Reschedule 5000,
                  TimerFire 2 (sampleEnv 1500 (Some 7000)), BeforeRequest ''a'', AfterRequest ''a'',
                  TimerFire 1 (sampleEnv 1500 (Some 7000))]
      (new_world sampleConfig real)) = [Pending]"
  by (simp add: eval_defs beforeJSInitiatedRequestCallback_def
        afterJSInitiatedRequestCallback_def performance_now_def)

text \<open>
  Claim C10.  A further call of \<^verbatim>\<open>getFirstConsistentlyInteractive\<close> returns a new promise
  and overwrites the stored resolver with the new promise's.  Every promise handed out
  before that call keeps, through every later run, the state it has at the call: one
  that is pending stays pending for ever.
\<close>

theorem earlier_promises_stay_pending:
  assumes "p < length (promises w)"
  shows "fst (getFirstConsistentlyInteractive loaded w) = length (promises w) \<and>
         firstConsistentlyInteractiveResolver
           (det (snd (getFirstConsistentlyInteractive loaded w))) = Some (length (promises w)) \<and>
         promises (run es (snd (getFirstConsistentlyInteractive loaded w))) ! p = promises w ! p"
proof -
  let ?w' = "snd (getFirstConsistentlyInteractive loaded w)"
  have r: "firstConsistentlyInteractiveResolver (det ?w') = Some (length (promises w))"
    and ps: "promises ?w' = promises w @ [Pending]"
    by (simp_all add: getFirstConsistentlyInteractive_def Let_def startSchedulingTimerTasks_frame)
  have "promises (run es ?w') ! p = promises ?w' ! p"
    using r _ _ assms by (rule run_old_promises) (simp_all add: ps)
  then have "promises (run es ?w') ! p = promises w ! p"
    using assms by (simp add: ps nth_append)
  with r show ?thesis by (simp add: getFirstConsistentlyInteractive_def Let_def)
qed

theorem earlier_promises_stay_pending_witness:
  "promises waitingWorld = [Pending] \<and>
   fst (getFirstConsistentlyInteractive True waitingWorld) = 1 \<and>
   promises (run [TimerFire 2 (sampleEnv 1500 (Some 7000))]
      (snd (getFirstConsistentlyInteractive True waitingWorld))) = [Pending, Fulfilled 7000]"
  using earlier_promises_stay_pending [of 0 waitingWorld True "[TimerFire 2 (sampleEnv 1500 (Some 7000))]"]
  by (simp add: eval_defs)

end
